theory Spec2Isabelle
  imports Main "HOL-Library.Sublist"
begin

section \<open>Strings as the script uses them\<close>

text \<open>
  The script \<^verbatim>\<open>_genproto.py\<close> works on Python \<^verbatim>\<open>str\<close> values read from UTF-8 text files.
  A line is modelled as a \<^typ>\<open>string\<close>, a list of characters, each character a code point
  below 256. The three string operations of the script are \<^verbatim>\<open>sub in line\<close>,
  \<^verbatim>\<open>line.replace(old, new)\<close> and \<^verbatim>\<open>line.strip()\<close>; the first two compare characters for
  equality only.
\<close>

text \<open>\<^verbatim>\<open>sub in s\<close>: \<^verbatim>\<open>sub\<close> occurs in \<^verbatim>\<open>s\<close> as a contiguous run of characters.\<close>

fun contains :: "string \<Rightarrow> string \<Rightarrow> bool" where
  "contains sub [] = (sub = [])"
| "contains sub (c # cs) = (prefix sub (c # cs) \<or> contains sub cs)"

text \<open>
  \<^verbatim>\<open>s.replace(old, new)\<close>: every occurrence of \<^verbatim>\<open>old\<close> found by a scan from the left is
  replaced, and the scan resumes behind the occurrence, so occurrences do not overlap. With
  the empty \<^verbatim>\<open>old\<close> Python puts \<^verbatim>\<open>new\<close> before every character and at the end.
\<close>

function str_replace :: "string \<Rightarrow> string \<Rightarrow> string \<Rightarrow> string" where
  "str_replace [] new s = new @ concat (map (\<lambda>c. c # new) s)"
| "str_replace (a # as) new [] = []"
| "str_replace (a # as) new (c # cs) =
     (if prefix (a # as) (c # cs)
      then new @ str_replace (a # as) new (drop (length as) cs)
      else c # str_replace (a # as) new cs)"
  by pat_completeness auto
termination
  by (relation "measure (\<lambda>(old, new, s). length s)") auto

text \<open>
  \<^verbatim>\<open>s.strip()\<close>: leading and trailing whitespace removed. Among the code points below 256,
  \<^verbatim>\<open>str.isspace\<close> holds of 9 to 13, 28 to 32, 133 and 160.
\<close>

definition isspace :: "char \<Rightarrow> bool" where
  "isspace c =
     (let n = (of_char c :: nat)
      in (9 \<le> n \<and> n \<le> 13) \<or> (28 \<le> n \<and> n \<le> 32) \<or> n = 133 \<or> n = 160)"

definition strip :: "string \<Rightarrow> string" where
  "strip s = rev (dropWhile isspace (rev (dropWhile isspace s)))"

section \<open>The line filter of \<^verbatim>\<open>main\<close>\<close>

text \<open>
  The loop over the lines of \<^verbatim>\<open>rpc.proto\<close> keeps two variables, \<^verbatim>\<open>skip_lines\<close> (a Python
  integer) and \<^verbatim>\<open>modified_lines\<close>, and prints a message for every line it drops on sight.
  The state of the loop is these two variables and the lines printed so far.
\<close>

record filter_state =
  skip_lines :: int
  modified_lines :: "string list"
  printed :: "string list"

definition substitute :: "string \<Rightarrow> string" where
  "substitute line =
     str_replace ''etcd/auth/authpb/auth.proto'' ''auth.proto''
       (str_replace ''etcd/mvcc/mvccpb/kv.proto'' ''kv.proto'' line)"

text \<open>One iteration of the loop body, the branches in the order of the source.\<close>

definition filter_step :: "filter_state \<Rightarrow> string \<Rightarrow> filter_state" where
  "filter_step st line =
     (if skip_lines st > 0 then st\<lparr>skip_lines := skip_lines st - 1\<rparr>
      else if contains ''gogoproto'' line
        then st\<lparr>printed := printed st @ [''Dropping line: '' @ strip line]\<rparr>
      else if contains ''google/api/annotations.proto'' line
        then st\<lparr>printed := printed st @ [''Dropping line: '' @ strip line]\<rparr>
      else if contains ''option (google.api.http)'' line
        then st\<lparr>skip_lines := 3,
                printed := printed st @
                  [''Dropping http option block starting with: '' @ strip line]\<rparr>
      else st\<lparr>modified_lines := modified_lines st @ [substitute line]\<rparr>)"

fun filter_loop :: "filter_state \<Rightarrow> string list \<Rightarrow> filter_state" where
  "filter_loop st [] = st"
| "filter_loop st (line # lines) = filter_loop (filter_step st line) lines"

definition filter_init :: filter_state where
  "filter_init = \<lparr>skip_lines = 0, modified_lines = [], printed = []\<rparr>"

definition line_filter :: "string list \<Rightarrow> filter_state" where
  "line_filter lines = filter_loop filter_init lines"

text \<open>
  The loop is a single pass from the top, so the state in which it reaches the line at
  position \<open>j\<close> is the state after the first \<open>j\<close> lines. The line at position \<open>j\<close> is absent
  from the output when its iteration appends nothing to \<^verbatim>\<open>modified_lines\<close>.
\<close>

definition state_at :: "string list \<Rightarrow> nat \<Rightarrow> filter_state" where
  "state_at lines j = filter_loop filter_init (take j lines)"

definition absent :: "string list \<Rightarrow> nat \<Rightarrow> bool" where
  "absent lines j =
     (modified_lines (state_at lines (Suc j)) = modified_lines (state_at lines j))"

text \<open>The substitution step of the loop body, applied to every line of a sequence.\<close>

definition substitute_all :: "string list \<Rightarrow> string list" where
  "substitute_all lines = map substitute lines"

section \<open>\<^verbatim>\<open>sed_inplace\<close>\<close>

text \<open>
  \<^verbatim>\<open>sed_inplace\<close> passes every line of a file through \<^verbatim>\<open>re.sub(pattern, replacement, line)\<close>.
  The three patterns that \<^verbatim>\<open>main\<close> hands over have the form \<^verbatim>\<open>^literal\<close>, the literal
  free of regular-expression operators, and no flag is set: such a pattern matches at the
  first character of the string and nowhere else, and the replacement texts contain no
  escape. A pattern is modelled by its literal.
\<close>

datatype pattern = LineStart string

fun re_sub :: "pattern \<Rightarrow> string \<Rightarrow> string \<Rightarrow> string" where
  "re_sub (LineStart lit) repl line =
     (if prefix lit line then repl @ drop (length lit) line else line)"

text \<open>
  A path is the list of its components below the file system root, and a file system maps
  the paths of the regular files to their contents, one string per line. Directories,
  permissions and encodings are not part of the model: reading a file that is not there is
  the one input/output error.
\<close>

type_synonym path = "string list"

type_synonym fs = "path \<rightharpoonup> string list"

datatype exn = FileNotFoundError

definition path_str :: "path \<Rightarrow> string" where
  "path_str p = concat (map (\<lambda>c. CHR ''/'' # c) p)"

definition exists :: "fs \<Rightarrow> path \<Rightarrow> bool" where
  "exists files p = (files p \<noteq> None)"

definition touch :: "path \<Rightarrow> fs \<Rightarrow> fs" where
  "touch p files = (if exists files p then files else files(p \<mapsto> []))"

definition sed_inplace :: "path \<Rightarrow> pattern \<Rightarrow> string \<Rightarrow> fs \<Rightarrow> exn + fs" where
  "sed_inplace file_path pat replacement files =
     (case files file_path of
        None \<Rightarrow> Inl FileNotFoundError
      | Some lines \<Rightarrow> Inr (files(file_path \<mapsto> map (re_sub pat replacement) lines)))"

section \<open>\<^verbatim>\<open>main\<close>\<close>

text \<open>
  What \<^verbatim>\<open>main\<close> takes from its environment: the directory of the script, the path of the
  interpreter, whether \<^verbatim>\<open>grpc.tools.protoc\<close> can be imported, and the child process, which
  receives the command line and the file system and returns its result and the file system
  it leaves behind. The child process is any function of these: \<^verbatim>\<open>subprocess.run\<close> is taken
  to start it and to wait for its end. \<^verbatim>\<open>mkdir(exist_ok=True)\<close> changes no regular file and
  does not appear.
\<close>

record proc_result =
  returncode :: int
  stdout :: string
  stderr :: string

record env =
  project_root :: path
  sys_executable :: string
  protoc_importable :: bool
  subprocess_run :: "string list \<Rightarrow> fs \<Rightarrow> proc_result \<times> fs"

definition SRC_DIR :: "env \<Rightarrow> path" where
  "SRC_DIR e = project_root e @ [''src'']"

definition PROTO_DIR :: "env \<Rightarrow> path" where
  "PROTO_DIR e = SRC_DIR e @ [''etcd3'', ''proto'']"

definition ETCDRPC_DIR :: "env \<Rightarrow> path" where
  "ETCDRPC_DIR e = SRC_DIR e @ [''etcd3'', ''etcdrpc'']"

definition RPC_PROTO_FILE :: "env \<Rightarrow> path" where
  "RPC_PROTO_FILE e = PROTO_DIR e @ [''rpc.proto'']"

definition RPC_PB2_FILE :: "env \<Rightarrow> path" where
  "RPC_PB2_FILE e = ETCDRPC_DIR e @ [''rpc_pb2.py'']"

definition RPC_PB2_GRPC_FILE :: "env \<Rightarrow> path" where
  "RPC_PB2_GRPC_FILE e = ETCDRPC_DIR e @ [''rpc_pb2_grpc.py'']"

text \<open>
  A run of \<^verbatim>\<open>main\<close> ends by returning, by \<^verbatim>\<open>sys.exit(code)\<close> or by an exception nobody
  catches. It leaves a file system and the sequence of its \<^verbatim>\<open>print\<close> calls, each to the
  standard output or to the standard error stream.
\<close>

datatype stream_line = Out string | Err string

datatype exit_status = Returned | SysExit int | Uncaught exn

record run =
  files :: fs
  console :: "stream_line list"
  exit :: exit_status

text \<open>
  The exit status of the process: 0 after a return, 1 after an exception nobody catches,
  and after \<^verbatim>\<open>sys.exit(n)\<close> the low eight bits of \<open>n\<close>, so that \<^verbatim>\<open>sys.exit(-9)\<close> ends the process
  with status 247. (The return codes of a child process lie within the range of a C
  integer, where this is what the interpreter and the operating system do.)
\<close>

fun exit_code :: "exit_status \<Rightarrow> int" where
  "exit_code Returned = 0"
| "exit_code (SysExit n) = n mod 256"
| "exit_code (Uncaught e) = 1"

fun join :: "string \<Rightarrow> string list \<Rightarrow> string" where
  "join sep [] = []"
| "join sep [x] = x"
| "join sep (x # y # ys) = x @ sep @ join sep (y # ys)"

definition protoc_command :: "env \<Rightarrow> string list" where
  "protoc_command e =
     [sys_executable e,
      ''-m'',
      ''grpc.tools.protoc'',
      ''-I'' @ path_str (PROTO_DIR e),
      ''--python_out='' @ path_str (ETCDRPC_DIR e),
      ''--grpc_python_out='' @ path_str (ETCDRPC_DIR e),
      path_str (PROTO_DIR e @ [''rpc.proto'']),
      path_str (PROTO_DIR e @ [''auth.proto'']),
      path_str (PROTO_DIR e @ [''kv.proto''])]"

text \<open>
  \<^verbatim>\<open>main\<close> is a straight sequence of statements. It is written as four definitions, each
  the rest of \<^verbatim>\<open>main\<close> from one statement on, the later ones first: the end of the
  function, the block for \<^verbatim>\<open>rpc_pb2_grpc.py\<close>, the block for \<^verbatim>\<open>rpc_pb2.py\<close>, and \<^verbatim>\<open>main\<close>
  from its first line.
\<close>

definition main_finish :: "fs \<Rightarrow> stream_line list \<Rightarrow> run" where
  "main_finish fls out =
     \<lparr>files = fls,
      console = out @ [Out ''Proto files generated successfully.''],
      exit = Returned\<rparr>"

definition main_patch_grpc :: "env \<Rightarrow> fs \<Rightarrow> stream_line list \<Rightarrow> run" where
  "main_patch_grpc e fls out =
     (if exists fls (RPC_PB2_GRPC_FILE e) then
        (let out1 = out @ [Out (''Patching imports in '' @ path_str (RPC_PB2_GRPC_FILE e))]
         in case sed_inplace (RPC_PB2_GRPC_FILE e) (LineStart ''import rpc_pb2'')
                   ''from etcd3.etcdrpc import rpc_pb2'' fls of
              Inl x \<Rightarrow> \<lparr>files = fls, console = out1, exit = Uncaught x\<rparr>
            | Inr fls1 \<Rightarrow> main_finish fls1 out1)
      else
        main_finish fls
          (out @ [Out (''Warning: '' @ path_str (RPC_PB2_GRPC_FILE e) @
                       '' not found for patching.'')]))"

definition main_patch_pb2 :: "env \<Rightarrow> fs \<Rightarrow> stream_line list \<Rightarrow> run" where
  "main_patch_pb2 e fls out =
     (if exists fls (RPC_PB2_FILE e) then
        (let out1 = out @ [Out (''Patching imports in '' @ path_str (RPC_PB2_FILE e))]
         in case sed_inplace (RPC_PB2_FILE e) (LineStart ''import auth_pb2'')
                   ''from etcd3.etcdrpc import auth_pb2'' fls of
              Inl x \<Rightarrow> \<lparr>files = fls, console = out1, exit = Uncaught x\<rparr>
            | Inr fls1 \<Rightarrow>
                (case sed_inplace (RPC_PB2_FILE e) (LineStart ''import kv_pb2'')
                        ''from etcd3.etcdrpc import kv_pb2'' fls1 of
                   Inl x \<Rightarrow> \<lparr>files = fls1, console = out1, exit = Uncaught x\<rparr>
                 | Inr fls2 \<Rightarrow> main_patch_grpc e fls2 out1))
      else
        main_patch_grpc e fls
          (out @ [Out (''Warning: '' @ path_str (RPC_PB2_FILE e) @
                       '' not found for patching.'')]))"

definition main :: "env \<Rightarrow> fs \<Rightarrow> run" where
  "main e fls =
     (if \<not> protoc_importable e then
        \<lparr>files = fls,
         console =
           [Err ''Error: 'grpcio-tools' is not installed or not found in the current environment.'',
            Err ''Please install the required dependencies by running: pip install -e .[protoc]''],
         exit = SysExit 1\<rparr>
      else
        (let out1 = [Out ''--- Modifying rpc.proto before generation ---'']
         in case fls (RPC_PROTO_FILE e) of
              None \<Rightarrow> \<lparr>files = fls, console = out1, exit = Uncaught FileNotFoundError\<rparr>
            | Some lines \<Rightarrow>
                (let st = line_filter lines;
                     out2 = out1 @ map Out (printed st);
                     fls1 = fls(RPC_PROTO_FILE e \<mapsto> modified_lines st);
                     out3 = out2 @ [Out ''--- Running protoc ---''];
                     out4 = out3 @ [Out (''Running: '' @ join '' '' (protoc_command e))];
                     (result, fls2) = subprocess_run e (protoc_command e) fls1
                 in if returncode result \<noteq> 0 then
                      \<lparr>files = fls2,
                       console = out4 @ [Out ''protoc command failed:'',
                                        Out (stdout result),
                                        Out (stderr result)],
                       exit = SysExit (returncode result)\<rparr>
                    else
                      (let out5 = out4 @ [Out (stdout result)] @
                                  (if stderr result \<noteq> []
                                   then [Out ''protoc stderr:'', Out (stderr result)]
                                   else []);
                           fls3 = touch (ETCDRPC_DIR e @ [''__init__.py'']) fls2;
                           out6 = out5 @ [Out ''--- Modifying generated python files ---'']
                       in main_patch_pb2 e fls3 out6))))"

section \<open>Notions used in the statements and proofs\<close>

text \<open>
  Two strings overlap when a non-empty end of the first is a beginning of the second. A
  marker and a replacement text are apart when neither overlaps the other and neither
  occurs in the other; inserting the replacement text into a line can then neither create
  nor complete an occurrence of the marker.
\<close>

definition overlap :: "string \<Rightarrow> string \<Rightarrow> bool" where
  "overlap a b = list_ex (\<lambda>x. x \<noteq> [] \<and> prefix x b) (suffixes a)"

definition apart :: "string \<Rightarrow> string \<Rightarrow> bool" where
  "apart m new =
     (\<not> overlap m new \<and> \<not> overlap new m \<and> \<not> contains m new \<and> \<not> contains new m)"

text \<open>
  \<open>rewritten old new s t\<close>: the text \<open>t\<close> comes from \<open>s\<close> by putting \<open>new\<close> in the place of
  some occurrences of \<open>old\<close> and copying every other character. At each character of
  \<open>s\<close>, either the character is copied, or an occurrence of \<open>old\<close> begins there and stands
  against \<open>new\<close> in \<open>t\<close>.
\<close>

function rewritten :: "string \<Rightarrow> string \<Rightarrow> string \<Rightarrow> string \<Rightarrow> bool" where
  "rewritten old new [] t = (t = [])"
| "rewritten old new (c # s) t =
     ((case t of [] \<Rightarrow> False | d # t' \<Rightarrow> d = c \<and> rewritten old new s t') \<or>
      (if old \<noteq> [] \<and> prefix old (c # s) \<and> prefix new t
       then rewritten old new (drop (length old) (c # s)) (drop (length new) t)
       else False))"
  by pat_completeness auto
termination
  by (relation "measure (\<lambda>(old, new, s, t). length s)") auto

text \<open>
  Sample environments for the concrete runs below: one without the generator toolchain,
  and, for a given result, one whose child process returns that result and leaves the file
  system as it found it.
\<close>

definition env_no_toolchain :: env where
  "env_no_toolchain =
     \<lparr>project_root = [''repo''], sys_executable = ''python'', protoc_importable = False,
      subprocess_run = (\<lambda>cmd fls. (\<lparr>returncode = 0, stdout = [], stderr = []\<rparr>, fls))\<rparr>"

definition env_returning :: "proc_result \<Rightarrow> env" where
  "env_returning r =
     \<lparr>project_root = [''repo''], sys_executable = ''python'', protoc_importable = True,
      subprocess_run = (\<lambda>cmd fls. (r, fls))\<rparr>"

text \<open>
  A sample environment whose child process succeeds and writes \<^verbatim>\<open>rpc_pb2.py\<close> with three
  lines, and no \<^verbatim>\<open>rpc_pb2_grpc.py\<close>.
\<close>

definition env_main_file_only :: env where
  "env_main_file_only =
     \<lparr>project_root = [''repo''], sys_executable = ''python'', protoc_importable = True,
      subprocess_run = (\<lambda>cmd fls.
        (\<lparr>returncode = 0, stdout = [], stderr = []\<rparr>,
         fls([''repo'', ''src'', ''etcd3'', ''etcdrpc'', ''rpc_pb2.py''] \<mapsto>
           [''import auth_pb2 as auth__pb2'',
            ''import kv_pb2 as kv__pb2'',
            ''# import kv_pb2''])))\<rparr>"

text \<open>
  What \<^verbatim>\<open>main\<close> has printed when the child process returns, for a schema file with the
  given lines; and the two substitutions of \<^verbatim>\<open>rpc_pb2.py\<close> in their order, on one line.
\<close>

definition generation_log :: "env \<Rightarrow> string list \<Rightarrow> stream_line list" where
  "generation_log e lines =
     [Out ''--- Modifying rpc.proto before generation ---''] @
     map Out (printed (line_filter lines)) @
     [Out ''--- Running protoc ---'',
      Out (''Running: '' @ join '' '' (protoc_command e))]"

definition patch_pb2_line :: "string \<Rightarrow> string" where
  "patch_pb2_line line =
     re_sub (LineStart ''import kv_pb2'') ''from etcd3.etcdrpc import kv_pb2''
       (re_sub (LineStart ''import auth_pb2'') ''from etcd3.etcdrpc import auth_pb2'' line)"

text \<open>
  A file system that holds an empty schema file and nothing else, below the project root
  of the sample environments.
\<close>

definition fs_empty_schema :: fs where
  "fs_empty_schema = [[''repo'', ''src'', ''etcd3'', ''proto'', ''rpc.proto''] \<mapsto> []]"

section \<open>Occurrences and replacement\<close>

lemma contains_iff_sublist: "contains sub s = sublist sub s"
  by (induction s) (simp_all add: sublist_Cons_right)

lemma overlapI: "suffix x a \<Longrightarrow> x \<noteq> [] \<Longrightarrow> prefix x b \<Longrightarrow> overlap a b"
  by (auto simp: overlap_def list_ex_iff)

lemma replace_keeps_unmatched:
  "old \<noteq> [] \<Longrightarrow> \<not> contains old s \<Longrightarrow> str_replace old new s = s"
  by (induction old new s rule: str_replace.induct) auto

text \<open>
  The first occurrence of \<open>old\<close> in a text: no occurrence lies in what precedes its last
  character. \<^verbatim>\<open>replace\<close> copies the text before it, puts \<open>new\<close> in its place and goes on
  behind it.
\<close>

lemma prefix_of_append_short:
  "prefix xs (ys @ zs) \<Longrightarrow> length xs \<le> length ys \<Longrightarrow> prefix xs ys"
  by (auto simp: prefix_append)

lemma not_prefix_before:
  assumes "old \<noteq> []" and "\<not> contains old (c # pre @ butlast old)"
  shows "\<not> prefix old (c # pre @ old @ post)"
proof
  assume p: "prefix old (c # pre @ old @ post)"
  from assms(1) have "butlast old @ [last old] = old" by simp
  then have "(c # pre @ butlast old) @ ([last old] @ post) = c # pre @ old @ post"
    by (metis append.assoc append_Cons)
  with p have "prefix old ((c # pre @ butlast old) @ ([last old] @ post))"
    by (simp only:)
  moreover from assms(1) have "length old \<le> length (c # pre @ butlast old)" by simp
  ultimately have "prefix old (c # pre @ butlast old)"
    by (rule prefix_of_append_short)
  with assms(2) show False by simp
qed

lemma replace_leftmost:
  "old \<noteq> [] \<Longrightarrow> \<not> contains old (pre @ butlast old) \<Longrightarrow>
   str_replace old new (pre @ old @ post) = pre @ new @ str_replace old new post"
proof (induction pre)
  case Nil
  then obtain a as where old: "old = a # as" by (cases old) auto
  show ?case by (simp add: old)
next
  case (Cons c pre)
  then obtain a as where old: "old = a # as" by (cases old) auto
  from Cons.prems have no: "\<not> prefix old (c # pre @ old @ post)"
    by (simp add: not_prefix_before)
  from Cons.prems have "\<not> contains old (pre @ butlast old)" by simp
  with Cons.IH Cons.prems(1)
  have ih: "str_replace old new (pre @ old @ post) = pre @ new @ str_replace old new post"
    by simp
  have "str_replace old new (c # pre @ old @ post) = c # str_replace old new (pre @ old @ post)"
    using no unfolding old by (simp only: str_replace.simps if_False)
  with ih show ?case by simp
qed

lemma replace_rewritten:
  "old \<noteq> [] \<Longrightarrow> rewritten old new s (str_replace old new s)"
proof (induction old new s rule: str_replace.induct)
  case (1 new s)
  then show ?case by simp
next
  case (2 a as new)
  show ?case by simp
next
  case (3 a as new c cs)
  show ?case
  proof (cases "prefix (a # as) (c # cs)")
    case True
    then have eq: "str_replace (a # as) new (c # cs) =
        new @ str_replace (a # as) new (drop (length as) cs)"
      by (simp only: str_replace.simps if_True)
    from "3.IH"(1) [OF True]
    have "rewritten (a # as) new (drop (length as) cs)
            (str_replace (a # as) new (drop (length as) cs))"
      by simp
    with True show ?thesis unfolding eq by simp
  next
    case False
    then have eq: "str_replace (a # as) new (c # cs) = c # str_replace (a # as) new cs"
      by (simp only: str_replace.simps if_False)
    from "3.IH"(2) [OF False]
    have "rewritten (a # as) new cs (str_replace (a # as) new cs)"
      by simp
    then show ?thesis unfolding eq by simp
  qed
qed

text \<open>
  A beginning of the replaced text that is an end piece of a marker is a beginning of the
  original text, when the marker and the replacement text do not get in each other's way.
\<close>

lemma prefix_of_replace:
  "old \<noteq> [] \<Longrightarrow> \<not> overlap m new \<Longrightarrow> \<not> sublist new m \<Longrightarrow> suffix m' m \<Longrightarrow> m' \<noteq> [] \<Longrightarrow>
   prefix m' (str_replace old new s) \<Longrightarrow> prefix m' s"
proof (induction old new s arbitrary: m' rule: str_replace.induct)
  case (1 new s)
  then show ?case by simp
next
  case (2 a as new)
  then show ?case by simp
next
  case (3 a as new c cs)
  note no_overlap = \<open>\<not> overlap m new\<close> and no_sub = \<open>\<not> sublist new m\<close>
    and suf = \<open>suffix m' m\<close> and ne = \<open>m' \<noteq> []\<close>
    and pre = \<open>prefix m' (str_replace (a # as) new (c # cs))\<close>
  show ?case
  proof (cases "prefix (a # as) (c # cs)")
    case True
    with pre have "prefix m' (new @ str_replace (a # as) new (drop (length as) cs))"
      by (simp only: str_replace.simps if_True)
    then consider "prefix m' new" | us where "m' = new @ us"
      by (auto simp: prefix_append)
    then show ?thesis
    proof cases
      case 1
      with suf ne no_overlap overlapI [of m' m new] show ?thesis by simp
    next
      case 2
      with suf have "sublist new m"
        by (auto simp: suffix_def sublist_def)
      with no_sub show ?thesis by simp
    qed
  next
    case False
    with pre have p: "prefix m' (c # str_replace (a # as) new cs)"
      by (simp only: str_replace.simps if_False)
    with ne obtain m'' where m': "m' = c # m''" by (cases m') auto
    show ?thesis
    proof (cases "m'' = []")
      case True
      with m' show ?thesis by simp
    next
      case nonempty: False
      from m' suf have "suffix m'' m" by (auto simp: suffix_def)
      moreover from p m' have "prefix m'' (str_replace (a # as) new cs)" by simp
      ultimately have "prefix m'' cs"
        using "3.IH"(2) [OF False _ no_overlap no_sub] nonempty by simp
      with m' show ?thesis by simp
    qed
  qed
qed

text \<open>Replacement creates no occurrence of a marker that is apart from the new text.\<close>

lemma contains_replace:
  "old \<noteq> [] \<Longrightarrow> apart m new \<Longrightarrow> contains m (str_replace old new s) \<Longrightarrow> contains m s"
proof (induction old new s rule: str_replace.induct)
  case (1 new s)
  then show ?case by simp
next
  case (2 a as new)
  then show ?case by simp
next
  case (3 a as new c cs)
  note apart = \<open>apart m new\<close>
    and occ = \<open>contains m (str_replace (a # as) new (c # cs))\<close>
  from apart have ap: "\<not> overlap m new" "\<not> overlap new m" "\<not> sublist m new" "\<not> sublist new m"
    by (simp_all add: apart_def contains_iff_sublist)
  let ?r = "str_replace (a # as) new (drop (length as) cs)"
  show ?case
  proof (cases "prefix (a # as) (c # cs)")
    case True
    with occ have "sublist m (new @ ?r)"
      by (simp only: str_replace.simps if_True contains_iff_sublist)
    then consider "sublist m new" | "sublist m ?r"
      | m1 m2 where "m = m1 @ m2" "suffix m1 new" "prefix m2 ?r"
      by (auto simp: sublist_append)
    then have "sublist m ?r"
    proof cases
      case 1
      with ap show ?thesis by simp
    next
      case 2
      then show ?thesis .
    next
      case 3
      show ?thesis
      proof (cases "m1 = []")
        case True
        with 3 show ?thesis by auto
      next
        case False
        with 3 overlapI [of m1 new m] ap show ?thesis by simp
      qed
    qed
    with "3.IH"(1) [OF True _ apart] have "sublist m (drop (length as) cs)"
      by (simp add: contains_iff_sublist)
    then have "sublist m cs"
      using sublist_drop sublist_order.order_trans by blast
    then show ?thesis by (simp add: contains_iff_sublist sublist_Cons_right)
  next
    case False
    with occ have "contains m (c # str_replace (a # as) new cs)"
      by (simp only: str_replace.simps if_False)
    then have "prefix m (c # str_replace (a # as) new cs)
        \<or> contains m (str_replace (a # as) new cs)"
      by simp
    then show ?thesis
    proof
      assume p: "prefix m (c # str_replace (a # as) new cs)"
      show ?thesis
      proof (cases "m = []")
        case True
        then show ?thesis by simp
      next
        case nonempty: False
        from p False have "prefix m (str_replace (a # as) new (c # cs))"
          by (simp only: str_replace.simps if_False)
        with prefix_of_replace [OF _ ap(1) ap(4), of "a # as" m "c # cs"] nonempty
        have "prefix m (c # cs)" by simp
        then show ?thesis by simp
      qed
    next
      assume "contains m (str_replace (a # as) new cs)"
      with "3.IH"(2) [OF False _ apart] show ?thesis by simp
    qed
  qed
qed

lemma apart_gogoproto_kv: "apart ''gogoproto'' ''kv.proto''"
  by (simp add: apart_def overlap_def)

lemma apart_gogoproto_auth: "apart ''gogoproto'' ''auth.proto''"
  by (simp add: apart_def overlap_def)

lemma apart_annotations_kv: "apart ''google/api/annotations.proto'' ''kv.proto''"
  by (simp add: apart_def overlap_def)

lemma apart_annotations_auth: "apart ''google/api/annotations.proto'' ''auth.proto''"
  by (simp add: apart_def overlap_def)

lemma substitute_no_marker:
  assumes "apart m ''kv.proto''" and "apart m ''auth.proto''" and "\<not> contains m line"
  shows "\<not> contains m (substitute line)"
proof
  let ?mid = "str_replace ''etcd/mvcc/mvccpb/kv.proto'' ''kv.proto'' line"
  assume "contains m (substitute line)"
  with assms(2) contains_replace [of "''etcd/auth/authpb/auth.proto''" m "''auth.proto''" ?mid]
  have "contains m ?mid"
    by (simp add: substitute_def)
  with assms(1) contains_replace [of "''etcd/mvcc/mvccpb/kv.proto''" m "''kv.proto''" line]
  have "contains m line"
    by simp
  with assms(3) show False by simp
qed

lemma substitute_unmatched:
  assumes "\<not> contains ''etcd/mvcc/mvccpb/kv.proto'' line"
    and "\<not> contains ''etcd/auth/authpb/auth.proto'' line"
  shows "substitute line = line"
  using assms by (simp add: substitute_def replace_keeps_unmatched)

section \<open>The filter loop, position by position\<close>

lemma filter_loop_append:
  "filter_loop st (xs @ ys) = filter_loop (filter_loop st xs) ys"
  by (induction xs arbitrary: st) simp_all

lemma state_at_Suc:
  "j < length lines \<Longrightarrow>
   state_at lines (Suc j) = filter_step (state_at lines j) (lines ! j)"
  by (simp add: state_at_def take_Suc_conv_app_nth filter_loop_append)

lemma state_at_past_end:
  "length lines \<le> j \<Longrightarrow> state_at lines j = line_filter lines"
  by (simp add: state_at_def line_filter_def)

lemma filter_step_skipping:
  "0 < skip_lines st \<Longrightarrow> filter_step st line = st\<lparr>skip_lines := skip_lines st - 1\<rparr>"
  by (simp add: filter_step_def)

lemma filter_step_trigger:
  assumes "skip_lines st = 0"
    and "\<not> contains ''gogoproto'' line"
    and "\<not> contains ''google/api/annotations.proto'' line"
    and "contains ''option (google.api.http)'' line"
  shows "filter_step st line =
    st\<lparr>skip_lines := 3,
       printed := printed st @ [''Dropping http option block starting with: '' @ strip line]\<rparr>"
  using assms by (simp add: filter_step_def)

lemma filter_step_emit:
  assumes "skip_lines st = 0"
    and "\<not> contains ''gogoproto'' line"
    and "\<not> contains ''google/api/annotations.proto'' line"
    and "\<not> contains ''option (google.api.http)'' line"
  shows "filter_step st line = st\<lparr>modified_lines := modified_lines st @ [substitute line]\<rparr>"
  using assms by (simp add: filter_step_def)

lemma filter_step_skip_range:
  "skip_lines st \<in> {0..3} \<Longrightarrow> skip_lines (filter_step st line) \<in> {0..3}"
  by (auto simp: filter_step_def)

lemma state_at_skip_range: "skip_lines (state_at lines j) \<in> {0..3}"
proof (induction j)
  case 0
  show ?case by (simp add: state_at_def filter_init_def)
next
  case (Suc j)
  show ?case
  proof (cases "j < length lines")
    case True
    with Suc filter_step_skip_range show ?thesis by (simp only: state_at_Suc)
  next
    case False
    then have "state_at lines (Suc j) = state_at lines j"
      by (simp add: state_at_def)
    with Suc show ?thesis by simp
  qed
qed

text \<open>While the counter lasts, each line takes one off it and nothing is appended.\<close>

lemma skip_run:
  "int k \<le> skip_lines (state_at lines a) \<Longrightarrow> a + k \<le> length lines \<Longrightarrow>
   skip_lines (state_at lines (a + k)) = skip_lines (state_at lines a) - int k \<and>
   modified_lines (state_at lines (a + k)) = modified_lines (state_at lines a)"
proof (induction k)
  case 0
  show ?case by simp
next
  case (Suc k)
  then have lt: "a + k < length lines" by simp
  from Suc have
    ih: "skip_lines (state_at lines (a + k)) = skip_lines (state_at lines a) - int k"
        "modified_lines (state_at lines (a + k)) = modified_lines (state_at lines a)"
    by simp_all
  from ih(1) Suc.prems have pos: "0 < skip_lines (state_at lines (a + k))" by simp
  have "state_at lines (a + Suc k) =
        (state_at lines (a + k))\<lparr>skip_lines := skip_lines (state_at lines (a + k)) - 1\<rparr>"
    using state_at_Suc [OF lt] filter_step_skipping [OF pos] by simp
  with ih show ?case by simp
qed

lemma absent_past_end: "length lines \<le> j \<Longrightarrow> absent lines j"
  by (simp add: absent_def state_at_past_end)

lemma absent_skipping:
  "j < length lines \<Longrightarrow> 0 < skip_lines (state_at lines j) \<Longrightarrow> absent lines j"
  by (simp add: absent_def state_at_Suc filter_step_skipping)

text \<open>
  After a trigger line that opens a block at position \<open>i\<close>, the counter is 3 and the three
  positions behind it only count down.
\<close>

lemma block_run:
  assumes "i < length lines" and "skip_lines (state_at lines i) = 0"
    and "\<not> contains ''gogoproto'' (lines ! i)"
    and "\<not> contains ''google/api/annotations.proto'' (lines ! i)"
    and "contains ''option (google.api.http)'' (lines ! i)"
    and "k \<le> 3" and "Suc i + k \<le> length lines"
  shows "skip_lines (state_at lines (Suc i + k)) = 3 - int k"
    and "modified_lines (state_at lines (Suc i + k)) = modified_lines (state_at lines i)"
proof -
  from assms(1-5) have
    start: "skip_lines (state_at lines (Suc i)) = 3"
           "modified_lines (state_at lines (Suc i)) = modified_lines (state_at lines i)"
    by (simp_all add: state_at_Suc filter_step_trigger)
  from assms(6) start(1) have "int k \<le> skip_lines (state_at lines (Suc i))" by simp
  from skip_run [OF this assms(7)] start
  show "skip_lines (state_at lines (Suc i + k)) = 3 - int k"
    and "modified_lines (state_at lines (Suc i + k)) = modified_lines (state_at lines i)"
    by simp_all
qed

lemma emitted_lines_clean:
  assumes "\<forall>l \<in> set (modified_lines st).
             \<not> contains ''gogoproto'' l \<and> \<not> contains ''google/api/annotations.proto'' l"
  shows "\<forall>l \<in> set (modified_lines (filter_loop st lines)).
             \<not> contains ''gogoproto'' l \<and> \<not> contains ''google/api/annotations.proto'' l"
  using assms
proof (induction lines arbitrary: st)
  case Nil
  then show ?case by simp
next
  case (Cons line lines)
  have "\<forall>l \<in> set (modified_lines (filter_step st line)).
          \<not> contains ''gogoproto'' l \<and> \<not> contains ''google/api/annotations.proto'' l"
    using Cons.prems
    by (auto simp: filter_step_def
          dest: substitute_no_marker [OF apart_gogoproto_kv apart_gogoproto_auth, rotated]
                substitute_no_marker [OF apart_annotations_kv apart_annotations_auth, rotated])
  from Cons.IH [OF this] show ?case by simp
qed

section \<open>The claims about the line filter\<close>

text \<open>
  C1, as stated: for every line at position \<open>i\<close> that contains the trigger
  \<^verbatim>\<open>option (google.api.http)\<close>, the lines at positions \<open>i\<close> to \<open>i + 3\<close> are absent from the
  output. This fails for a trigger line that lies inside the block of an earlier trigger:
  in the five lines below the line at position 1 contains the trigger, yet the line at
  position 4 is emitted. It fails as well for a trigger line that contains a drop marker:
  such a line is dropped alone, and the line behind it is emitted.
\<close>

theorem block_deletion_counterexample:
  "contains ''option (google.api.http)''
     ([''option (google.api.http) = {'', ''option (google.api.http) = {'',
       ''a'', ''b'', ''c''] ! 1)
   \<and> \<not> absent [''option (google.api.http) = {'', ''option (google.api.http) = {'',
                ''a'', ''b'', ''c''] 4
   \<and> modified_lines (line_filter [''option (google.api.http) = {'',
                ''option (google.api.http) = {'', ''a'', ''b'', ''c'']) = [''c'']
   \<and> contains ''option (google.api.http)''
       ([''option (google.api.http) = { // gogoproto'', ''a''] ! 0)
   \<and> \<not> absent [''option (google.api.http) = { // gogoproto'', ''a''] 1
   \<and> modified_lines (line_filter [''option (google.api.http) = { // gogoproto'', ''a'']) =
       [''a'']"
  by (simp add: absent_def state_at_def line_filter_def filter_init_def filter_step_def
        substitute_def)

text \<open>
  C1, amended: for every line at position \<open>i\<close> that contains the trigger, contains neither
  drop marker and is reached with the skip counter at zero, the lines at positions \<open>i\<close> to
  \<open>i + 3\<close> are absent from the output; if no more than three lines remain after position
  \<open>i\<close>, all of them are absent and the output is the one of the lines before \<open>i\<close>. The
  filter is a total function with no error result. (A position past the end holds no
  line and is absent.)
\<close>

theorem block_deletion:
  assumes "i < length lines"
    and "skip_lines (state_at lines i) = 0"
    and "\<not> contains ''gogoproto'' (lines ! i)"
    and "\<not> contains ''google/api/annotations.proto'' (lines ! i)"
    and "contains ''option (google.api.http)'' (lines ! i)"
  shows "(\<forall>j. i \<le> j \<and> j \<le> i + 3 \<longrightarrow> absent lines j) \<and>
         (length lines \<le> i + 4 \<longrightarrow>
            modified_lines (line_filter lines) = modified_lines (state_at lines i))"
proof (intro conjI allI impI)
  fix j
  assume j: "i \<le> j \<and> j \<le> i + 3"
  show "absent lines j"
  proof (cases "j < length lines")
    case False
    then show ?thesis by (simp add: absent_past_end)
  next
    case True
    show ?thesis
    proof (cases "j = i")
      case True
      with block_run(2) [OF assms, of 0] assms(1) show ?thesis
        by (simp add: absent_def)
    next
      case False
      with j have "j = Suc i + (j - Suc i)" "j - Suc i \<le> 2" by arith+
      then obtain k where k: "j = Suc i + k" "k \<le> 2" by blast
      with True block_run(1) [OF assms, of k]
      have "0 < skip_lines (state_at lines j)" by simp
      with True show ?thesis by (rule absent_skipping)
    qed
  qed
next
  assume short: "length lines \<le> i + 4"
  define k where "k = length lines - Suc i"
  with short assms(1) have k: "k \<le> 3" "Suc i + k = length lines" by simp_all
  from block_run(2) [OF assms, of k] k
  have "modified_lines (state_at lines (length lines)) = modified_lines (state_at lines i)"
    by simp
  then show "modified_lines (line_filter lines) = modified_lines (state_at lines i)"
    by (simp add: state_at_past_end)
qed

theorem block_deletion_witness:
  "(1::nat) < length [''a'', ''option (google.api.http) = {'', ''b'']
   \<and> skip_lines (state_at [''a'', ''option (google.api.http) = {'', ''b''] 1) = 0
   \<and> \<not> contains ''gogoproto'' ([''a'', ''option (google.api.http) = {'', ''b''] ! 1)
   \<and> \<not> contains ''google/api/annotations.proto''
         ([''a'', ''option (google.api.http) = {'', ''b''] ! 1)
   \<and> contains ''option (google.api.http)''
         ([''a'', ''option (google.api.http) = {'', ''b''] ! 1)
   \<and> absent [''a'', ''option (google.api.http) = {'', ''b''] 1
   \<and> absent [''a'', ''option (google.api.http) = {'', ''b''] 2
   \<and> modified_lines (line_filter [''a'', ''option (google.api.http) = {'', ''b'']) =
       modified_lines (state_at [''a'', ''option (google.api.http) = {'', ''b''] 1)"
proof -
  let ?lines = "[''a'', ''option (google.api.http) = {'', ''b'']"
  have h1: "1 < length ?lines" by simp
  have h2: "skip_lines (state_at ?lines 1) = 0"
    by (simp add: state_at_def filter_init_def filter_step_def)
  have h3: "\<not> contains ''gogoproto'' (?lines ! 1)" by simp
  have h4: "\<not> contains ''google/api/annotations.proto'' (?lines ! 1)" by simp
  have h5: "contains ''option (google.api.http)'' (?lines ! 1)" by simp
  from block_deletion [OF h1 h2 h3 h4 h5] have "absent ?lines 1" "absent ?lines 2"
    "modified_lines (line_filter ?lines) = modified_lines (state_at ?lines 1)"
    by simp_all
  with h1 h2 h3 h4 h5 show ?thesis by (simp only: simp_thms)
qed

text \<open>
  C2: no line of the output of the filter contains \<^verbatim>\<open>gogoproto\<close>, and none contains
  \<^verbatim>\<open>google/api/annotations.proto\<close>. The lines that reach the output contain neither
  marker, and the two replacements cannot create one.
\<close>

theorem marker_exclusion:
  "\<forall>l \<in> set (modified_lines (line_filter lines)).
     \<not> contains ''gogoproto'' l \<and> \<not> contains ''google/api/annotations.proto'' l"
  unfolding line_filter_def
  by (rule emitted_lines_clean) (simp add: filter_init_def)

theorem marker_exclusion_witness:
  "modified_lines (line_filter [''import gogoproto/gogo.proto'', ''message A {}'']) =
     [''message A {}'']
   \<and> \<not> contains ''gogoproto'' ''message A {}''
   \<and> \<not> contains ''google/api/annotations.proto'' ''message A {}''"
proof -
  let ?lines = "[''import gogoproto/gogo.proto'', ''message A {}'']"
  have out: "modified_lines (line_filter ?lines) = [''message A {}'']"
    by (simp add: line_filter_def filter_init_def filter_step_def substitute_def)
  with marker_exclusion [of ?lines] show ?thesis by simp
qed

text \<open>
  C3: a line at position \<open>j\<close> that is not consumed by an active skip block (the counter is
  zero when the loop reaches it) and contains none of the three markers is emitted with
  exactly the two replacements applied, first \<^verbatim>\<open>etcd/mvcc/mvccpb/kv.proto\<close> to \<^verbatim>\<open>kv.proto\<close>,
  then \<^verbatim>\<open>etcd/auth/authpb/auth.proto\<close> to \<^verbatim>\<open>auth.proto\<close>. Each of the two replacements
  replaces every occurrence of its old path that a scan from the left finds: in a text
  \<open>pre @ old @ post\<close> whose first occurrence of the old path is the one shown, the result
  is \<open>pre\<close>, the new name, and the replacement of \<open>post\<close>; and a text without the old path
  is left as it is. These two laws determine the replaced text. No other text is altered:
  every character outside the replaced occurrences is copied. A line with neither path
  is emitted unchanged, and the line \<^verbatim>\<open>import "etcd/mvcc/mvccpb/kv.proto";\<close> is emitted as
  \<^verbatim>\<open>import "kv.proto";\<close>.
\<close>

theorem substitution_exact:
  assumes \<open>j < length lines\<close>
    and \<open>skip_lines (state_at lines j) = 0\<close>
    and \<open>\<not> contains ''gogoproto'' (lines ! j)\<close>
    and \<open>\<not> contains ''google/api/annotations.proto'' (lines ! j)\<close>
    and \<open>\<not> contains ''option (google.api.http)'' (lines ! j)\<close>
  shows \<open>modified_lines (state_at lines (Suc j)) =
           modified_lines (state_at lines j) @
             [str_replace ''etcd/auth/authpb/auth.proto'' ''auth.proto''
                (str_replace ''etcd/mvcc/mvccpb/kv.proto'' ''kv.proto'' (lines ! j))]
         \<and> (\<forall>pre post.
              \<not> contains ''etcd/mvcc/mvccpb/kv.proto''
                  (pre @ butlast ''etcd/mvcc/mvccpb/kv.proto'') \<longrightarrow>
              str_replace ''etcd/mvcc/mvccpb/kv.proto'' ''kv.proto''
                (pre @ ''etcd/mvcc/mvccpb/kv.proto'' @ post) =
              pre @ ''kv.proto'' @ str_replace ''etcd/mvcc/mvccpb/kv.proto'' ''kv.proto'' post)
         \<and> (\<forall>s. \<not> contains ''etcd/mvcc/mvccpb/kv.proto'' s \<longrightarrow>
              str_replace ''etcd/mvcc/mvccpb/kv.proto'' ''kv.proto'' s = s)
         \<and> (\<forall>pre post.
              \<not> contains ''etcd/auth/authpb/auth.proto''
                  (pre @ butlast ''etcd/auth/authpb/auth.proto'') \<longrightarrow>
              str_replace ''etcd/auth/authpb/auth.proto'' ''auth.proto''
                (pre @ ''etcd/auth/authpb/auth.proto'' @ post) =
              pre @ ''auth.proto'' @
                str_replace ''etcd/auth/authpb/auth.proto'' ''auth.proto'' post)
         \<and> (\<forall>s. \<not> contains ''etcd/auth/authpb/auth.proto'' s \<longrightarrow>
              str_replace ''etcd/auth/authpb/auth.proto'' ''auth.proto'' s = s)
         \<and> rewritten ''etcd/mvcc/mvccpb/kv.proto'' ''kv.proto'' (lines ! j)
             (str_replace ''etcd/mvcc/mvccpb/kv.proto'' ''kv.proto'' (lines ! j))
         \<and> rewritten ''etcd/auth/authpb/auth.proto'' ''auth.proto''
             (str_replace ''etcd/mvcc/mvccpb/kv.proto'' ''kv.proto'' (lines ! j))
             (str_replace ''etcd/auth/authpb/auth.proto'' ''auth.proto''
                (str_replace ''etcd/mvcc/mvccpb/kv.proto'' ''kv.proto'' (lines ! j)))
         \<and> (\<not> contains ''etcd/mvcc/mvccpb/kv.proto'' (lines ! j) \<and>
            \<not> contains ''etcd/auth/authpb/auth.proto'' (lines ! j) \<longrightarrow>
              modified_lines (state_at lines (Suc j)) =
                modified_lines (state_at lines j) @ [lines ! j])
         \<and> modified_lines (line_filter [''import "etcd/mvcc/mvccpb/kv.proto";'']) =
             [''import "kv.proto";'']\<close>
proof (intro conjI allI impI)
  from assms have step: \<open>modified_lines (state_at lines (Suc j)) =
      modified_lines (state_at lines j) @ [substitute (lines ! j)]\<close>
    by (simp add: state_at_Suc filter_step_emit)
  then show \<open>modified_lines (state_at lines (Suc j)) =
           modified_lines (state_at lines j) @
             [str_replace ''etcd/auth/authpb/auth.proto'' ''auth.proto''
                (str_replace ''etcd/mvcc/mvccpb/kv.proto'' ''kv.proto'' (lines ! j))]\<close>
    by (simp only: substitute_def)
  show \<open>rewritten ''etcd/mvcc/mvccpb/kv.proto'' ''kv.proto'' (lines ! j)
             (str_replace ''etcd/mvcc/mvccpb/kv.proto'' ''kv.proto'' (lines ! j))\<close>
    by (rule replace_rewritten) simp
  show \<open>rewritten ''etcd/auth/authpb/auth.proto'' ''auth.proto''
             (str_replace ''etcd/mvcc/mvccpb/kv.proto'' ''kv.proto'' (lines ! j))
             (str_replace ''etcd/auth/authpb/auth.proto'' ''auth.proto''
                (str_replace ''etcd/mvcc/mvccpb/kv.proto'' ''kv.proto'' (lines ! j)))\<close>
    by (rule replace_rewritten) simp
  show \<open>modified_lines (line_filter [''import "etcd/mvcc/mvccpb/kv.proto";'']) =
             [''import "kv.proto";'']\<close>
    by (simp add: line_filter_def filter_init_def filter_step_def substitute_def)
  {
    assume \<open>\<not> contains ''etcd/mvcc/mvccpb/kv.proto'' (lines ! j) \<and>
            \<not> contains ''etcd/auth/authpb/auth.proto'' (lines ! j)\<close>
    with step show \<open>modified_lines (state_at lines (Suc j)) =
                modified_lines (state_at lines j) @ [lines ! j]\<close>
      by (simp add: substitute_unmatched)
  }
  {
    fix pre post
    assume \<open>\<not> contains ''etcd/mvcc/mvccpb/kv.proto''
        (pre @ butlast ''etcd/mvcc/mvccpb/kv.proto'')\<close>
    then show \<open>str_replace ''etcd/mvcc/mvccpb/kv.proto'' ''kv.proto''
                (pre @ ''etcd/mvcc/mvccpb/kv.proto'' @ post) =
              pre @ ''kv.proto'' @ str_replace ''etcd/mvcc/mvccpb/kv.proto'' ''kv.proto'' post\<close>
      by (rule replace_leftmost [rotated]) simp
  }
  {
    fix pre post
    assume \<open>\<not> contains ''etcd/auth/authpb/auth.proto''
        (pre @ butlast ''etcd/auth/authpb/auth.proto'')\<close>
    then show \<open>str_replace ''etcd/auth/authpb/auth.proto'' ''auth.proto''
                (pre @ ''etcd/auth/authpb/auth.proto'' @ post) =
              pre @ ''auth.proto'' @
                str_replace ''etcd/auth/authpb/auth.proto'' ''auth.proto'' post\<close>
      by (rule replace_leftmost [rotated]) simp
  }
  {
    fix s
    assume \<open>\<not> contains ''etcd/mvcc/mvccpb/kv.proto'' s\<close>
    then show \<open>str_replace ''etcd/mvcc/mvccpb/kv.proto'' ''kv.proto'' s = s\<close>
      by (rule replace_keeps_unmatched [rotated]) simp
  }
  {
    fix s
    assume \<open>\<not> contains ''etcd/auth/authpb/auth.proto'' s\<close>
    then show \<open>str_replace ''etcd/auth/authpb/auth.proto'' ''auth.proto'' s = s\<close>
      by (rule replace_keeps_unmatched [rotated]) simp
  }
qed

theorem substitution_exact_witness:
  \<open>(1::nat) < length [''syntax = "proto3";'',
        ''import "etcd/auth/authpb/auth.proto"; // etcd/mvcc/mvccpb/kv.proto etcd/auth/authpb/auth.proto'']
   \<and> skip_lines (state_at [''syntax = "proto3";'',
        ''import "etcd/auth/authpb/auth.proto"; // etcd/mvcc/mvccpb/kv.proto etcd/auth/authpb/auth.proto''] 1) = 0
   \<and> \<not> contains ''gogoproto''
        ''import "etcd/auth/authpb/auth.proto"; // etcd/mvcc/mvccpb/kv.proto etcd/auth/authpb/auth.proto''
   \<and> \<not> contains ''google/api/annotations.proto''
        ''import "etcd/auth/authpb/auth.proto"; // etcd/mvcc/mvccpb/kv.proto etcd/auth/authpb/auth.proto''
   \<and> \<not> contains ''option (google.api.http)''
        ''import "etcd/auth/authpb/auth.proto"; // etcd/mvcc/mvccpb/kv.proto etcd/auth/authpb/auth.proto''
   \<and> modified_lines (state_at [''syntax = "proto3";'',
        ''import "etcd/auth/authpb/auth.proto"; // etcd/mvcc/mvccpb/kv.proto etcd/auth/authpb/auth.proto''] 2) =
       modified_lines (state_at [''syntax = "proto3";'',
        ''import "etcd/auth/authpb/auth.proto"; // etcd/mvcc/mvccpb/kv.proto etcd/auth/authpb/auth.proto''] 1) @
       [''import "auth.proto"; // kv.proto auth.proto'']
   \<and> \<not> contains ''etcd/auth/authpb/auth.proto''
        (''import "'' @ butlast ''etcd/auth/authpb/auth.proto'')
   \<and> str_replace ''etcd/auth/authpb/auth.proto'' ''auth.proto''
        (''import "'' @ ''etcd/auth/authpb/auth.proto'' @ ''"; // etcd/auth/authpb/auth.proto'') =
       ''import "'' @ ''auth.proto'' @ ''"; // auth.proto''\<close>
proof -
  let ?line = \<open>''import "etcd/auth/authpb/auth.proto"; // etcd/mvcc/mvccpb/kv.proto etcd/auth/authpb/auth.proto''\<close>
  let ?lines = \<open>[''syntax = "proto3";'', ?line]\<close>
  have nth: \<open>?lines ! 1 = ?line\<close> by simp
  have h1: \<open>1 < length ?lines\<close> by simp
  have h2: \<open>skip_lines (state_at ?lines 1) = 0\<close>
    by (simp add: state_at_def filter_init_def filter_step_def)
  have h3: \<open>\<not> contains ''gogoproto'' ?line\<close> by simp
  have h4: \<open>\<not> contains ''google/api/annotations.proto'' ?line\<close> by simp
  have h5: \<open>\<not> contains ''option (google.api.http)'' ?line\<close> by simp
  have new: \<open>str_replace ''etcd/auth/authpb/auth.proto'' ''auth.proto''
      (str_replace ''etcd/mvcc/mvccpb/kv.proto'' ''kv.proto'' ?line) =
      ''import "auth.proto"; // kv.proto auth.proto''\<close>
    by simp
  have two: \<open>Suc 1 = 2\<close> by simp
  note exact = substitution_exact [of 1 ?lines, unfolded nth, OF h1 h2 h3 h4 h5]
  from exact have emitted: \<open>modified_lines (state_at ?lines 2) =
      modified_lines (state_at ?lines 1) @ [''import "auth.proto"; // kv.proto auth.proto'']\<close>
    unfolding new two by (rule conjunct1)
  have first: \<open>\<not> contains ''etcd/auth/authpb/auth.proto''
        (''import "'' @ butlast ''etcd/auth/authpb/auth.proto'')\<close>
    by simp
  have rest: \<open>str_replace ''etcd/auth/authpb/auth.proto'' ''auth.proto''
      ''"; // etcd/auth/authpb/auth.proto'' = ''"; // auth.proto''\<close>
    by simp
  from exact have \<open>\<forall>pre post.
              \<not> contains ''etcd/auth/authpb/auth.proto''
                  (pre @ butlast ''etcd/auth/authpb/auth.proto'') \<longrightarrow>
              str_replace ''etcd/auth/authpb/auth.proto'' ''auth.proto''
                (pre @ ''etcd/auth/authpb/auth.proto'' @ post) =
              pre @ ''auth.proto'' @
                str_replace ''etcd/auth/authpb/auth.proto'' ''auth.proto'' post\<close>
    by (rule conjunct2 [THEN conjunct2, THEN conjunct2, THEN conjunct1])
  with first have \<open>str_replace ''etcd/auth/authpb/auth.proto'' ''auth.proto''
        (''import "'' @ ''etcd/auth/authpb/auth.proto'' @ ''"; // etcd/auth/authpb/auth.proto'') =
       ''import "'' @ ''auth.proto'' @
         str_replace ''etcd/auth/authpb/auth.proto'' ''auth.proto''
           ''"; // etcd/auth/authpb/auth.proto''\<close>
    by blast
  then have law: \<open>str_replace ''etcd/auth/authpb/auth.proto'' ''auth.proto''
        (''import "'' @ ''etcd/auth/authpb/auth.proto'' @ ''"; // etcd/auth/authpb/auth.proto'') =
       ''import "'' @ ''auth.proto'' @ ''"; // auth.proto''\<close>
    by (simp only: rest)
  from h1 h2 h3 h4 h5 emitted first law show ?thesis by (simp only: simp_thms)
qed

text \<open>
  C4, as stated: applying the substitution step to a line sequence that is an output of
  the substitution step changes nothing. This fails: the replacement can leave an old
  path behind, which a second application replaces once more.
\<close>

theorem substitution_idempotent_counterexample:
  "substitute_all [''etcd/mvcc/mvccpb/etcd/mvcc/mvccpb/kv.proto''] =
     [''etcd/mvcc/mvccpb/kv.proto'']
   \<and> substitute_all (substitute_all [''etcd/mvcc/mvccpb/etcd/mvcc/mvccpb/kv.proto'']) =
     [''kv.proto'']
   \<and> substitute_all (substitute_all [''etcd/mvcc/mvccpb/etcd/mvcc/mvccpb/kv.proto'']) \<noteq>
     substitute_all [''etcd/mvcc/mvccpb/etcd/mvcc/mvccpb/kv.proto'']"
  by (simp add: substitute_all_def substitute_def)

text \<open>
  C4, amended: for every line sequence that is an output of the substitution step and
  whose lines no longer contain an old path, applying the substitution step again yields
  the identical sequence.
\<close>

theorem substitution_idempotent:
  assumes "\<forall>l \<in> set (substitute_all lines).
             \<not> contains ''etcd/mvcc/mvccpb/kv.proto'' l \<and>
             \<not> contains ''etcd/auth/authpb/auth.proto'' l"
  shows "substitute_all (substitute_all lines) = substitute_all lines"
proof -
  have "map substitute (substitute_all lines) = substitute_all lines"
    using assms by (intro map_idI) (simp add: substitute_unmatched)
  then show ?thesis by (simp add: substitute_all_def)
qed

theorem substitution_idempotent_witness:
  \<open>substitute_all [''import "etcd/mvcc/mvccpb/kv.proto";''] = [''import "kv.proto";'']
   \<and> \<not> contains ''etcd/mvcc/mvccpb/kv.proto'' ''import "kv.proto";''
   \<and> \<not> contains ''etcd/auth/authpb/auth.proto'' ''import "kv.proto";''
   \<and> substitute_all (substitute_all [''import "etcd/mvcc/mvccpb/kv.proto";'']) =
       substitute_all [''import "etcd/mvcc/mvccpb/kv.proto";'']\<close>
proof -
  let ?lines = \<open>[''import "etcd/mvcc/mvccpb/kv.proto";'']\<close>
  have out: \<open>substitute_all ?lines = [''import "kv.proto";'']\<close>
    by (simp add: substitute_all_def substitute_def)
  have clean: \<open>\<not> contains ''etcd/mvcc/mvccpb/kv.proto'' ''import "kv.proto";''\<close>
    \<open>\<not> contains ''etcd/auth/authpb/auth.proto'' ''import "kv.proto";''\<close>
    by simp_all
  then have \<open>\<forall>l \<in> set (substitute_all ?lines).
             \<not> contains ''etcd/mvcc/mvccpb/kv.proto'' l \<and>
             \<not> contains ''etcd/auth/authpb/auth.proto'' l\<close>
    by (simp only: out) simp
  from substitution_idempotent [OF this] out clean show ?thesis by (simp only: simp_thms)
qed

text \<open>
  C9: throughout one pass the skip counter is never negative (it stays between 0 and 3).
  At a line reached with a positive counter the counter goes down by exactly one and the
  line is consumed without output; at a line reached with the counter at zero it stays
  zero, unless the line is a trigger line that passes the two drop tests, which sets it
  to 3.
\<close>

theorem skip_counter_invariant:
  "0 \<le> skip_lines (state_at lines j) \<and> skip_lines (state_at lines j) \<le> 3 \<and>
   (j < length lines \<longrightarrow>
      (0 < skip_lines (state_at lines j) \<longrightarrow>
         skip_lines (state_at lines (Suc j)) = skip_lines (state_at lines j) - 1 \<and>
         absent lines j) \<and>
      (skip_lines (state_at lines j) = 0 \<longrightarrow>
         skip_lines (state_at lines (Suc j)) =
           (if contains ''option (google.api.http)'' (lines ! j) \<and>
               \<not> contains ''gogoproto'' (lines ! j) \<and>
               \<not> contains ''google/api/annotations.proto'' (lines ! j)
            then 3 else 0)))"
proof (intro conjI impI)
  from state_at_skip_range [of lines j]
  show "0 \<le> skip_lines (state_at lines j)" and "skip_lines (state_at lines j) \<le> 3"
    by simp_all
next
  assume "j < length lines" and "0 < skip_lines (state_at lines j)"
  then show "skip_lines (state_at lines (Suc j)) = skip_lines (state_at lines j) - 1"
    and "absent lines j"
    by (simp_all add: state_at_Suc filter_step_skipping absent_skipping)
next
  assume "j < length lines" and "skip_lines (state_at lines j) = 0"
  then show "skip_lines (state_at lines (Suc j)) =
           (if contains ''option (google.api.http)'' (lines ! j) \<and>
               \<not> contains ''gogoproto'' (lines ! j) \<and>
               \<not> contains ''google/api/annotations.proto'' (lines ! j)
            then 3 else 0)"
    by (simp add: state_at_Suc filter_step_def)
qed

theorem skip_counter_invariant_witness:
  "(1::nat) < length [''option (google.api.http) = {'', ''a'', ''b'']
   \<and> skip_lines (state_at [''option (google.api.http) = {'', ''a'', ''b''] 1) = 3
   \<and> skip_lines (state_at [''option (google.api.http) = {'', ''a'', ''b''] 2) = 2
   \<and> absent [''option (google.api.http) = {'', ''a'', ''b''] 1"
proof -
  let ?lines = "[''option (google.api.http) = {'', ''a'', ''b'']"
  have h1: "1 < length ?lines" by simp
  have h2: "skip_lines (state_at ?lines 1) = 3"
    by (simp add: state_at_def filter_init_def filter_step_def)
  have two: "Suc 1 = 2" by simp
  from skip_counter_invariant [of ?lines 1] h1 h2
  have "skip_lines (state_at ?lines 2) = 2" and "absent ?lines 1"
    by (simp_all only: two)
  with h1 h2 show ?thesis by (simp only: simp_thms)
qed

text \<open>
  C10: skip blocks do not stack. Let a trigger line open a block at position \<open>i\<close>, and let
  a line at a position \<open>j\<close> among the three behind it contain the trigger as well. Then
  line \<open>j\<close> only takes one off the counter (it prints nothing and does not set the counter
  to 3 again), the counter is back at zero at position \<open>i + 4\<close>, and the line there, if it
  contains none of the markers, is emitted as usual.
\<close>

theorem skip_blocks_do_not_stack:
  assumes "i + 4 < length lines"
    and "skip_lines (state_at lines i) = 0"
    and "\<not> contains ''gogoproto'' (lines ! i)"
    and "\<not> contains ''google/api/annotations.proto'' (lines ! i)"
    and "contains ''option (google.api.http)'' (lines ! i)"
    and "i < j" and "j \<le> i + 3"
    and "contains ''option (google.api.http)'' (lines ! j)"
    and "\<not> contains ''gogoproto'' (lines ! (i + 4))"
    and "\<not> contains ''google/api/annotations.proto'' (lines ! (i + 4))"
    and "\<not> contains ''option (google.api.http)'' (lines ! (i + 4))"
  shows "state_at lines (Suc j) =
           (state_at lines j)\<lparr>skip_lines := skip_lines (state_at lines j) - 1\<rparr>
         \<and> skip_lines (state_at lines (i + 4)) = 0
         \<and> modified_lines (state_at lines (i + 5)) =
             modified_lines (state_at lines i) @ [substitute (lines ! (i + 4))]"
proof (intro conjI)
  from assms(1) have i: "i < length lines" by simp
  note run = block_run [OF i assms(2-5)]
  from assms(6,7) have "j = Suc i + (j - Suc i)" "j - Suc i \<le> 2" by arith+
  then obtain k where k: "j = Suc i + k" "k \<le> 2" by blast
  with assms(1) run(1) [of k] have pos: "0 < skip_lines (state_at lines j)" by simp
  from assms(1,7) have "j < length lines" by simp
  with pos show "state_at lines (Suc j) =
           (state_at lines j)\<lparr>skip_lines := skip_lines (state_at lines j) - 1\<rparr>"
    by (simp add: state_at_Suc filter_step_skipping)
  have four: "Suc i + 3 = i + 4" and five: "Suc (i + 4) = i + 5" by simp_all
  from assms(1) have "(3::nat) \<le> 3" and "Suc i + 3 \<le> length lines" by simp_all
  from run(1) [OF this] run(2) [OF this]
  have end_of_block: "skip_lines (state_at lines (i + 4)) = 0"
    "modified_lines (state_at lines (i + 4)) = modified_lines (state_at lines i)"
    unfolding four by simp_all
  from end_of_block(1) show "skip_lines (state_at lines (i + 4)) = 0" .
  have "state_at lines (Suc (i + 4)) = filter_step (state_at lines (i + 4)) (lines ! (i + 4))"
    using assms(1) by (rule state_at_Suc)
  also have "\<dots> = (state_at lines (i + 4))
      \<lparr>modified_lines := modified_lines (state_at lines (i + 4)) @
         [substitute (lines ! (i + 4))]\<rparr>"
    using end_of_block(1) assms(9-11) by (rule filter_step_emit)
  finally show "modified_lines (state_at lines (i + 5)) =
          modified_lines (state_at lines i) @ [substitute (lines ! (i + 4))]"
    unfolding five by (simp add: end_of_block(2))
qed

theorem skip_blocks_do_not_stack_witness:
  "skip_lines (state_at [''option (google.api.http) = {'', ''option (google.api.http) = {'',
       ''a'', ''b'', ''c''] 0) = 0
   \<and> contains ''option (google.api.http)'' ''option (google.api.http) = {''
   \<and> skip_lines (state_at [''option (google.api.http) = {'', ''option (google.api.http) = {'',
       ''a'', ''b'', ''c''] 1) = 3
   \<and> skip_lines (state_at [''option (google.api.http) = {'', ''option (google.api.http) = {'',
       ''a'', ''b'', ''c''] 2) = 2
   \<and> skip_lines (state_at [''option (google.api.http) = {'', ''option (google.api.http) = {'',
       ''a'', ''b'', ''c''] 4) = 0
   \<and> modified_lines (state_at [''option (google.api.http) = {'',
       ''option (google.api.http) = {'', ''a'', ''b'', ''c''] 5) = [''c'']"
proof -
  let ?T = "''option (google.api.http) = {''"
  let ?lines = "[?T, ?T, ''a'', ''b'', ''c'']"
  have h1: "0 + 4 < length ?lines" by simp
  have h2: "skip_lines (state_at ?lines 0) = 0"
    by (simp add: state_at_def filter_init_def)
  have h3: "\<not> contains ''gogoproto'' (?lines ! 0)"
    and h4: "\<not> contains ''google/api/annotations.proto'' (?lines ! 0)"
    and h5: "contains ''option (google.api.http)'' (?lines ! 0)"
    by simp_all
  have h6: "(0::nat) < 1" and h7: "(1::nat) \<le> 0 + 3" by simp_all
  have h8: "contains ''option (google.api.http)'' (?lines ! 1)" by simp
  have h9: "\<not> contains ''gogoproto'' (?lines ! (0 + 4))"
    and h10: "\<not> contains ''google/api/annotations.proto'' (?lines ! (0 + 4))"
    and h11: "\<not> contains ''option (google.api.http)'' (?lines ! (0 + 4))"
    by simp_all
  have trig: "contains ''option (google.api.http)'' ?T" by simp
  have before: "skip_lines (state_at ?lines 1) = 3" "modified_lines (state_at ?lines 0) = []"
    by (simp_all add: state_at_def filter_init_def filter_step_def)
  have last: "substitute (?lines ! 4) = ''c''" by (simp add: substitute_def)
  have num: "Suc 1 = 2" "0 + 4 = (4::nat)" "0 + 5 = (5::nat)" by simp_all
  note stack = skip_blocks_do_not_stack [OF h1 h2 h3 h4 h5 h6 h7 h8 h9 h10 h11, unfolded num]
  from stack have "state_at ?lines 2 =
      (state_at ?lines 1)\<lparr>skip_lines := skip_lines (state_at ?lines 1) - 1\<rparr>"
    by (rule conjunct1)
  then have "skip_lines (state_at ?lines 2) = skip_lines (state_at ?lines 1) - 1"
    by simp
  with before(1) have s2: "skip_lines (state_at ?lines 2) = 2" by simp
  from stack have s4: "skip_lines (state_at ?lines 4) = 0"
    by (rule conjunct2 [THEN conjunct1])
  from stack have "modified_lines (state_at ?lines 5) =
      modified_lines (state_at ?lines 0) @ [substitute (?lines ! 4)]"
    by (rule conjunct2 [THEN conjunct2])
  then have m5: "modified_lines (state_at ?lines 5) = [''c'']"
    by (simp only: before(2) last append_Nil)
  from h2 trig before(1) s2 s4 m5 show ?thesis by (simp only: simp_thms)
qed

section \<open>The claims about \<^verbatim>\<open>main\<close> and \<^verbatim>\<open>sed_inplace\<close>\<close>

lemma paths_distinct:
  "RPC_PB2_FILE e \<noteq> RPC_PB2_GRPC_FILE e"
  "RPC_PB2_FILE e \<noteq> ETCDRPC_DIR e @ [''__init__.py'']"
  "RPC_PB2_GRPC_FILE e \<noteq> ETCDRPC_DIR e @ [''__init__.py'']"
  by (simp_all add: RPC_PB2_FILE_def RPC_PB2_GRPC_FILE_def)

text \<open>\<^verbatim>\<open>main\<close> from the return of the child process on.\<close>

lemma main_after_generator:
  assumes "protoc_importable e"
    and "fls (RPC_PROTO_FILE e) = Some lines"
    and "subprocess_run e (protoc_command e)
           (fls(RPC_PROTO_FILE e \<mapsto> modified_lines (line_filter lines))) = (result, fls2)"
  shows "main e fls =
    (if returncode result \<noteq> 0 then
       \<lparr>files = fls2,
        console = generation_log e lines @
          [Out ''protoc command failed:'', Out (stdout result), Out (stderr result)],
        exit = SysExit (returncode result)\<rparr>
     else
       main_patch_pb2 e (touch (ETCDRPC_DIR e @ [''__init__.py'']) fls2)
         (generation_log e lines @ [Out (stdout result)] @
          (if stderr result \<noteq> [] then [Out ''protoc stderr:'', Out (stderr result)] else []) @
          [Out ''--- Modifying generated python files ---'']))"
  using assms by (simp add: main_def generation_log_def Let_def)

text \<open>The block for \<^verbatim>\<open>rpc_pb2_grpc.py\<close> always reaches the end of \<^verbatim>\<open>main\<close>.\<close>

lemma main_patch_grpc_result:
  "exit (main_patch_grpc e fls out) = Returned"
  "files (main_patch_grpc e fls out) =
     (case fls (RPC_PB2_GRPC_FILE e) of
        None \<Rightarrow> fls
      | Some lines \<Rightarrow>
          fls(RPC_PB2_GRPC_FILE e \<mapsto>
            map (re_sub (LineStart ''import rpc_pb2'') ''from etcd3.etcdrpc import rpc_pb2'')
              lines))"
  "fls (RPC_PB2_GRPC_FILE e) = None \<Longrightarrow>
     console (main_patch_grpc e fls out) =
       out @ [Out (''Warning: '' @ path_str (RPC_PB2_GRPC_FILE e) @ '' not found for patching.''),
              Out ''Proto files generated successfully.'']"
  by (simp_all add: main_patch_grpc_def main_finish_def exists_def sed_inplace_def
        split: option.splits)

lemma main_patch_pb2_result:
  "exit (main_patch_pb2 e fls out) = Returned"
  "files (main_patch_pb2 e fls out) (RPC_PB2_FILE e) =
     map_option (map patch_pb2_line) (fls (RPC_PB2_FILE e))"
  "fls (RPC_PB2_GRPC_FILE e) = None \<Longrightarrow>
     files (main_patch_pb2 e fls out) (RPC_PB2_GRPC_FILE e) = None"
  "fls (RPC_PB2_GRPC_FILE e) = None \<Longrightarrow>
     Out (''Warning: '' @ path_str (RPC_PB2_GRPC_FILE e) @ '' not found for patching.'')
       \<in> set (console (main_patch_pb2 e fls out))"
  using paths_distinct [of e]
  by (auto simp: main_patch_pb2_def main_patch_grpc_result exists_def sed_inplace_def
        patch_pb2_line_def Let_def split: option.splits)

text \<open>
  C5, as stated: when the child process returns a code other than zero, the pipeline
  terminates with that same exit code. This fails for a code outside 1 to 255: a
  generator killed by signal 9 is reported with the return code -9, \<^verbatim>\<open>main\<close> calls
  \<^verbatim>\<open>sys.exit(-9)\<close>, and the pipeline ends with status 247.
\<close>

theorem generator_failure_halts_counterexample:
  "protoc_importable (env_returning \<lparr>returncode = - 9, stdout = [], stderr = []\<rparr>)
   \<and> returncode \<lparr>returncode = - 9, stdout = [], stderr = []\<rparr> \<noteq> 0
   \<and> exit (main (env_returning \<lparr>returncode = - 9, stdout = [], stderr = []\<rparr>)
        fs_empty_schema) = SysExit (- 9)
   \<and> exit_code (exit (main (env_returning \<lparr>returncode = - 9, stdout = [], stderr = []\<rparr>)
        fs_empty_schema)) = 247
   \<and> exit_code (exit (main (env_returning \<lparr>returncode = - 9, stdout = [], stderr = []\<rparr>)
        fs_empty_schema)) \<noteq> returncode \<lparr>returncode = - 9, stdout = [], stderr = []\<rparr>"
  by (simp add: main_def env_returning_def fs_empty_schema_def
        RPC_PROTO_FILE_def PROTO_DIR_def SRC_DIR_def Let_def)

text \<open>
  C5, amended: when the child process returns a code other than zero, \<^verbatim>\<open>main\<close> prints
  \<^verbatim>\<open>protoc command failed:\<close> and then both captured streams, ends by \<^verbatim>\<open>sys.exit\<close> with that
  code, and patches nothing: the file system it leaves is the one the child process
  left. The exit status of the pipeline is that code modulo 256, which is the code itself
  when it lies between 1 and 255. In particular the code 1 of the generator is the code 1
  of the pipeline.
\<close>

theorem generator_failure_halts:
  assumes "protoc_importable e"
    and "fls (RPC_PROTO_FILE e) = Some lines"
    and "subprocess_run e (protoc_command e)
           (fls(RPC_PROTO_FILE e \<mapsto> modified_lines (line_filter lines))) = (result, fls2)"
    and "returncode result \<noteq> 0"
  shows "exit (main e fls) = SysExit (returncode result)
         \<and> exit_code (exit (main e fls)) = returncode result mod 256
         \<and> (1 \<le> returncode result \<and> returncode result \<le> 255 \<longrightarrow>
              exit_code (exit (main e fls)) = returncode result)
         \<and> files (main e fls) = fls2
         \<and> console (main e fls) =
             generation_log e lines @
             [Out ''protoc command failed:'', Out (stdout result), Out (stderr result)]"
  using assms(4) by (simp add: main_after_generator [OF assms(1-3)])

theorem generator_failure_halts_witness:
  "protoc_importable (env_returning \<lparr>returncode = 1, stdout = ''out'', stderr = ''err''\<rparr>)
   \<and> returncode \<lparr>returncode = 1, stdout = ''out'', stderr = ''err''\<rparr> \<noteq> 0
   \<and> exit_code (exit (main
        (env_returning \<lparr>returncode = 1, stdout = ''out'', stderr = ''err''\<rparr>)
        fs_empty_schema)) = 1
   \<and> files (main
        (env_returning \<lparr>returncode = 1, stdout = ''out'', stderr = ''err''\<rparr>)
        fs_empty_schema) = fs_empty_schema"
proof -
  let ?r = "\<lparr>returncode = 1, stdout = ''out'', stderr = ''err''\<rparr>"
  let ?e = "env_returning ?r"
  have h1: "protoc_importable ?e" by (simp add: env_returning_def)
  have h2: "fs_empty_schema (RPC_PROTO_FILE ?e) = Some []"
    by (simp add: fs_empty_schema_def env_returning_def RPC_PROTO_FILE_def PROTO_DIR_def
          SRC_DIR_def)
  have same: "fs_empty_schema(RPC_PROTO_FILE ?e \<mapsto> modified_lines (line_filter [])) =
      fs_empty_schema"
    using h2 by (auto simp: line_filter_def filter_init_def)
  have h3: "subprocess_run ?e (protoc_command ?e)
      (fs_empty_schema(RPC_PROTO_FILE ?e \<mapsto> modified_lines (line_filter []))) =
      (?r, fs_empty_schema)"
    unfolding same by (simp add: env_returning_def)
  have h4: "returncode ?r \<noteq> 0" by simp
  from generator_failure_halts [OF h1 h2 h3 h4]
  have "exit_code (exit (main ?e fs_empty_schema)) = 1"
    and "files (main ?e fs_empty_schema) = fs_empty_schema"
    by simp_all
  with h1 h4 show ?thesis by (simp only: simp_thms)
qed

text \<open>
  C6: when the child process returns zero and \<^verbatim>\<open>rpc_pb2_grpc.py\<close> is not there afterwards,
  \<^verbatim>\<open>main\<close> prints a warning for it and leaves it absent, \<^verbatim>\<open>rpc_pb2.py\<close> is patched by its
  two substitutions if it is there, and \<^verbatim>\<open>main\<close> returns: the exit code is 0.
\<close>

theorem missing_stub_is_warning:
  assumes "protoc_importable e"
    and "fls (RPC_PROTO_FILE e) = Some lines"
    and "subprocess_run e (protoc_command e)
           (fls(RPC_PROTO_FILE e \<mapsto> modified_lines (line_filter lines))) = (result, fls2)"
    and "returncode result = 0"
    and "fls2 (RPC_PB2_GRPC_FILE e) = None"
  shows "exit (main e fls) = Returned
         \<and> exit_code (exit (main e fls)) = 0
         \<and> Out (''Warning: '' @ path_str (RPC_PB2_GRPC_FILE e) @ '' not found for patching.'')
             \<in> set (console (main e fls))
         \<and> files (main e fls) (RPC_PB2_GRPC_FILE e) = None
         \<and> files (main e fls) (RPC_PB2_FILE e) =
             map_option (map patch_pb2_line) (fls2 (RPC_PB2_FILE e))"
proof -
  let ?fls3 = "touch (ETCDRPC_DIR e @ [''__init__.py'']) fls2"
  from assms(5) paths_distinct [of e]
  have absent: "?fls3 (RPC_PB2_GRPC_FILE e) = None"
    and same: "?fls3 (RPC_PB2_FILE e) = fls2 (RPC_PB2_FILE e)"
    by (simp_all add: touch_def)
  from assms(4) main_after_generator [OF assms(1-3)] obtain out
    where run: "main e fls = main_patch_pb2 e ?fls3 out"
    by simp
  have "exit (main e fls) = Returned"
    by (simp only: run main_patch_pb2_result(1))
  moreover from this have "exit_code (exit (main e fls)) = 0"
    by simp
  moreover have "Out (''Warning: '' @ path_str (RPC_PB2_GRPC_FILE e) @
      '' not found for patching.'') \<in> set (console (main e fls))"
    unfolding run using absent by (rule main_patch_pb2_result(4))
  moreover have "files (main e fls) (RPC_PB2_GRPC_FILE e) = None"
    unfolding run using absent by (rule main_patch_pb2_result(3))
  moreover have "files (main e fls) (RPC_PB2_FILE e) =
      map_option (map patch_pb2_line) (fls2 (RPC_PB2_FILE e))"
    by (simp only: run main_patch_pb2_result(2) same)
  ultimately show ?thesis by (simp only: simp_thms)
qed

lemma all_less_two: "(\<forall>k < Suc (Suc 0). P k) = (P 0 \<and> P (Suc 0))"
  by (auto simp: less_Suc_eq)

theorem missing_stub_is_warning_witness:
  "protoc_importable env_main_file_only
   \<and> fs_empty_schema (RPC_PROTO_FILE env_main_file_only) = Some []
   \<and> exit_code (exit (main env_main_file_only fs_empty_schema)) = 0
   \<and> files (main env_main_file_only fs_empty_schema) (RPC_PB2_GRPC_FILE env_main_file_only) =
       None
   \<and> files (main env_main_file_only fs_empty_schema) (RPC_PB2_FILE env_main_file_only) =
       Some [''from etcd3.etcdrpc import auth_pb2 as auth__pb2'',
             ''from etcd3.etcdrpc import kv_pb2 as kv__pb2'',
             ''# import kv_pb2'']"
proof -
  let ?e = "env_main_file_only"
  let ?r = "\<lparr>returncode = 0, stdout = [], stderr = []\<rparr>"
  let ?fls2 = "fs_empty_schema([''repo'', ''src'', ''etcd3'', ''etcdrpc'', ''rpc_pb2.py''] \<mapsto>
           [''import auth_pb2 as auth__pb2'',
            ''import kv_pb2 as kv__pb2'',
            ''# import kv_pb2''])"
  have paths: "RPC_PROTO_FILE ?e = [''repo'', ''src'', ''etcd3'', ''proto'', ''rpc.proto'']"
    "RPC_PB2_FILE ?e = [''repo'', ''src'', ''etcd3'', ''etcdrpc'', ''rpc_pb2.py'']"
    "RPC_PB2_GRPC_FILE ?e = [''repo'', ''src'', ''etcd3'', ''etcdrpc'', ''rpc_pb2_grpc.py'']"
    by (simp_all add: env_main_file_only_def RPC_PROTO_FILE_def RPC_PB2_FILE_def
          RPC_PB2_GRPC_FILE_def PROTO_DIR_def ETCDRPC_DIR_def SRC_DIR_def)
  have h1: "protoc_importable ?e" by (simp add: env_main_file_only_def)
  have h2: "fs_empty_schema (RPC_PROTO_FILE ?e) = Some []"
    by (simp add: paths fs_empty_schema_def)
  have same: "fs_empty_schema(RPC_PROTO_FILE ?e \<mapsto> modified_lines (line_filter [])) =
      fs_empty_schema"
    using h2 by (auto simp: line_filter_def filter_init_def)
  have h3: "subprocess_run ?e (protoc_command ?e)
      (fs_empty_schema(RPC_PROTO_FILE ?e \<mapsto> modified_lines (line_filter []))) =
      (?r, ?fls2)"
    unfolding same by (simp add: env_main_file_only_def)
  have h4: "returncode ?r = 0" by simp
  have h5: "?fls2 (RPC_PB2_GRPC_FILE ?e) = None"
    by (simp add: paths fs_empty_schema_def)
  have patched: "map_option (map patch_pb2_line) (?fls2 (RPC_PB2_FILE ?e)) =
      Some [''from etcd3.etcdrpc import auth_pb2 as auth__pb2'',
            ''from etcd3.etcdrpc import kv_pb2 as kv__pb2'',
            ''# import kv_pb2'']"
    by (simp add: paths patch_pb2_line_def)
  note result = missing_stub_is_warning [OF h1 h2 h3 h4 h5]
  from result have "exit_code (exit (main ?e fs_empty_schema)) = 0"
    by (rule conjunct2 [THEN conjunct1])
  moreover from result
  have "files (main ?e fs_empty_schema) (RPC_PB2_GRPC_FILE ?e) = None"
    by (rule conjunct2 [THEN conjunct2, THEN conjunct2, THEN conjunct1])
  moreover from result
  have "files (main ?e fs_empty_schema) (RPC_PB2_FILE ?e) =
      map_option (map patch_pb2_line) (?fls2 (RPC_PB2_FILE ?e))"
    by (rule conjunct2 [THEN conjunct2, THEN conjunct2, THEN conjunct2])
  ultimately show ?thesis using h1 h2 by (simp only: patched simp_thms)
qed

text \<open>
  C7: \<^verbatim>\<open>sed_inplace\<close> with a pattern \<^verbatim>\<open>^literal\<close> keeps the number and the order of the lines
  of the file; a line that begins with the literal has this first occurrence replaced,
  and a line that does not begin with it is left as it is, wherever else the literal
  occurs in it. The line \<^verbatim>\<open>import auth_pb2\<close> becomes \<^verbatim>\<open>from etcd3.etcdrpc import auth_pb2\<close>;
  an indented or commented \<^verbatim>\<open>import auth_pb2\<close> stays.
\<close>

theorem import_patch_anchored:
  assumes "fls p = Some lines"
  shows "(\<exists>lines'. sed_inplace p (LineStart lit) repl fls = Inr (fls(p \<mapsto> lines')) \<and>
            length lines' = length lines \<and>
            (\<forall>k < length lines.
               (prefix lit (lines ! k) \<longrightarrow>
                  lines' ! k = repl @ drop (length lit) (lines ! k)) \<and>
               (\<not> prefix lit (lines ! k) \<longrightarrow> lines' ! k = lines ! k)))
         \<and> re_sub (LineStart ''import auth_pb2'') ''from etcd3.etcdrpc import auth_pb2''
              ''import auth_pb2'' = ''from etcd3.etcdrpc import auth_pb2''
         \<and> contains ''import auth_pb2'' ''    import auth_pb2''
         \<and> re_sub (LineStart ''import auth_pb2'') ''from etcd3.etcdrpc import auth_pb2''
              ''    import auth_pb2'' = ''    import auth_pb2''"
proof (intro conjI)
  show "\<exists>lines'. sed_inplace p (LineStart lit) repl fls = Inr (fls(p \<mapsto> lines')) \<and>
            length lines' = length lines \<and>
            (\<forall>k < length lines.
               (prefix lit (lines ! k) \<longrightarrow>
                  lines' ! k = repl @ drop (length lit) (lines ! k)) \<and>
               (\<not> prefix lit (lines ! k) \<longrightarrow> lines' ! k = lines ! k))"
    using assms
    by (intro exI [of _ "map (re_sub (LineStart lit) repl) lines"])
       (simp add: sed_inplace_def)
qed simp_all

theorem import_patch_anchored_witness:
  "sed_inplace [''rpc_pb2.py''] (LineStart ''import auth_pb2'')
     ''from etcd3.etcdrpc import auth_pb2''
     [[''rpc_pb2.py''] \<mapsto> [''import auth_pb2 as a'', ''x = 1  # import auth_pb2'']] =
   Inr [[''rpc_pb2.py''] \<mapsto>
     [''from etcd3.etcdrpc import auth_pb2 as a'', ''x = 1  # import auth_pb2'']]"
proof -
  let ?fls = "[[''rpc_pb2.py''] \<mapsto> [''import auth_pb2 as a'', ''x = 1  # import auth_pb2'']]"
  let ?lines = "[''import auth_pb2 as a'', ''x = 1  # import auth_pb2'']"
  have h: "?fls [''rpc_pb2.py''] = Some ?lines" by simp
  from import_patch_anchored [where fls = ?fls and p = "[''rpc_pb2.py'']" and lines = ?lines
      and lit = "''import auth_pb2''" and repl = "''from etcd3.etcdrpc import auth_pb2''", OF h]
  obtain lines' where
    run: "sed_inplace [''rpc_pb2.py''] (LineStart ''import auth_pb2'')
        ''from etcd3.etcdrpc import auth_pb2'' ?fls = Inr (?fls([''rpc_pb2.py''] \<mapsto> lines'))"
    and len: "length lines' = length ?lines"
    and nth: "\<forall>k < length ?lines.
        (prefix ''import auth_pb2'' (?lines ! k) \<longrightarrow>
           lines' ! k = ''from etcd3.etcdrpc import auth_pb2'' @
             drop (length ''import auth_pb2'') (?lines ! k)) \<and>
        (\<not> prefix ''import auth_pb2'' (?lines ! k) \<longrightarrow> lines' ! k = ?lines ! k)"
    by blast
  from len obtain a b where ab: "lines' = [a, b]"
    by (auto simp: length_Suc_conv)
  with nth have "a = ''from etcd3.etcdrpc import auth_pb2 as a''"
    and "b = ''x = 1  # import auth_pb2''"
    by (simp_all add: all_less_two)
  with ab run show ?thesis by simp
qed

text \<open>
  C8, as stated: the exit status 1 of a run without the generator toolchain is distinct
  from the exit status of a run whose generator fails. This fails when the generator
  itself exits with 1: both runs end with status 1.
\<close>

theorem missing_toolchain_counterexample:
  "\<not> protoc_importable env_no_toolchain
   \<and> protoc_importable (env_returning \<lparr>returncode = 1, stdout = [], stderr = []\<rparr>)
   \<and> exit (main env_no_toolchain fs_empty_schema) = SysExit 1
   \<and> exit (main (env_returning \<lparr>returncode = 1, stdout = [], stderr = []\<rparr>)
        fs_empty_schema) = SysExit 1
   \<and> exit_code (exit (main env_no_toolchain fs_empty_schema)) =
     exit_code (exit (main (env_returning \<lparr>returncode = 1, stdout = [], stderr = []\<rparr>)
        fs_empty_schema))"
  by (simp add: main_def env_no_toolchain_def env_returning_def fs_empty_schema_def
        RPC_PROTO_FILE_def PROTO_DIR_def SRC_DIR_def Let_def)

text \<open>
  C8, amended: when \<^verbatim>\<open>grpc.tools.protoc\<close> cannot be imported, \<^verbatim>\<open>main\<close> leaves the file system
  untouched, prints the two lines of its corrective message to the standard error stream
  and ends by \<^verbatim>\<open>sys.exit(1)\<close>; this status differs from the status of every run whose
  generator fails with a code other than 1 (modulo 256, as the exit status is taken).
\<close>

theorem missing_toolchain:
  assumes "\<not> protoc_importable e"
  shows "main e fls =
           \<lparr>files = fls,
            console =
              [Err ''Error: 'grpcio-tools' is not installed or not found in the current environment.'',
               Err ''Please install the required dependencies by running: pip install -e .[protoc]''],
            exit = SysExit 1\<rparr>
         \<and> exit_code (exit (main e fls)) = 1
         \<and> (\<forall>e' fls' lines result fls2.
              protoc_importable e' \<and>
              fls' (RPC_PROTO_FILE e') = Some lines \<and>
              subprocess_run e' (protoc_command e')
                (fls'(RPC_PROTO_FILE e' \<mapsto> modified_lines (line_filter lines))) =
                (result, fls2) \<and>
              returncode result \<noteq> 0 \<and> returncode result mod 256 \<noteq> 1 \<longrightarrow>
              exit_code (exit (main e' fls')) \<noteq> exit_code (exit (main e fls)))"
proof (intro conjI allI impI)
  from assms show stop: "main e fls =
           \<lparr>files = fls,
            console =
              [Err ''Error: 'grpcio-tools' is not installed or not found in the current environment.'',
               Err ''Please install the required dependencies by running: pip install -e .[protoc]''],
            exit = SysExit 1\<rparr>"
    by (simp add: main_def)
  then show one: "exit_code (exit (main e fls)) = 1" by simp
  fix e' fls' lines result fls2
  assume "protoc_importable e' \<and>
              fls' (RPC_PROTO_FILE e') = Some lines \<and>
              subprocess_run e' (protoc_command e')
                (fls'(RPC_PROTO_FILE e' \<mapsto> modified_lines (line_filter lines))) =
                (result, fls2) \<and>
              returncode result \<noteq> 0 \<and> returncode result mod 256 \<noteq> 1"
  then have "exit_code (exit (main e' fls')) = returncode result mod 256"
    and "returncode result mod 256 \<noteq> 1"
    by (simp_all add: main_after_generator)
  with one show "exit_code (exit (main e' fls')) \<noteq> exit_code (exit (main e fls))"
    by simp
qed

theorem missing_toolchain_witness:
  "\<not> protoc_importable env_no_toolchain
   \<and> files (main env_no_toolchain fs_empty_schema) = fs_empty_schema
   \<and> exit_code (exit (main env_no_toolchain fs_empty_schema)) = 1
   \<and> exit_code (exit (main (env_returning \<lparr>returncode = 2, stdout = [], stderr = []\<rparr>)
        fs_empty_schema)) = 2"
proof -
  let ?r = "\<lparr>returncode = 2, stdout = [], stderr = []\<rparr>"
  let ?e = "env_returning ?r"
  have h: "\<not> protoc_importable env_no_toolchain" by (simp add: env_no_toolchain_def)
  note stop = missing_toolchain [OF h, of fs_empty_schema]
  from stop have "files (main env_no_toolchain fs_empty_schema) = fs_empty_schema"
    by simp
  moreover from stop have "exit_code (exit (main env_no_toolchain fs_empty_schema)) = 1"
    by (rule conjunct2 [THEN conjunct1])
  moreover have "exit_code (exit (main ?e fs_empty_schema)) = 2"
    by (simp add: main_def env_returning_def fs_empty_schema_def
        RPC_PROTO_FILE_def PROTO_DIR_def SRC_DIR_def Let_def)
  ultimately show ?thesis using h by (simp only: simp_thms)
qed

end
